theory Spec2Isabelle
  imports Main "HOL-Library.Word"
begin

section \<open>The buffer cache of kernel/bio.c\<close>

text \<open>
  The cache is a fixed pool of \<open>NBUF\<close> buffers and \<open>NBUCKET\<close> hash buckets. Each bucket
  heads a doubly linked list threaded through the \<open>prev\<close>/\<open>next\<close> fields of the pool's
  buffers. A pointer to a buffer is the buffer's index in the pool; the null pointer is
  \<open>None\<close>. A pointer that a caller passes to \<open>bwrite\<close>, \<open>brelse\<close>, \<open>bpin\<close> or \<open>bunpin\<close> is
  taken to point into the pool (the theorems say so where it matters). The C type
  \<open>uint\<close> is a 32-bit word, so \<open>refcnt++\<close> and \<open>refcnt--\<close> wrap.

  Every operation is modelled as one atomic step on the whole cache (the sections under
  the spinlocks are not interleaved with each other). The sleep lock of a buffer is the
  process id of its holder. A caller that reaches \<open>acquiresleep\<close> on a held lock does not
  return: the model reports it as sleeping, with the cache as it is at that moment.
\<close>

type_synonym u32 = "32 word"
type_synonym u8 = "8 word"

definition NBUCKET :: nat where
  "NBUCKET = 13"

text \<open>
  Modelled from the spec: \<open>struct buf\<close>, which bio.c takes from buf.h. The fields are
  those that bio.c reads and writes, with the meaning of the specification's data
  model: \<open>valid\<close> (has the block been read from disk), the identity \<open>dev\<close>/\<open>blockno\<close>,
  the sleep lock (the holder, if any), \<open>refcnt\<close>, the list pointers and the payload
  \<open>data\<close>.
\<close>

record buf =
  valid :: bool
  dev :: u32
  blockno :: u32
  lock :: "nat option"
  refcnt :: u32
  prev :: "nat option"
  "next" :: "nat option"
  data :: "u8 list"

text \<open>
  The state of \<open>bcache\<close>: the pool \<open>bufs\<close> (its length is \<open>NBUF\<close>, a constant of param.h)
  and the head pointer of each bucket. Two more components stand for the disk driver:
  the contents of the disk and the log of the calls of \<open>virtio_disk_rw\<close>, each entry
  being the buffer and the write flag.
\<close>

record cache =
  bufs :: "buf list"
  heads :: "nat option list"
  disk :: "u32 \<Rightarrow> u32 \<Rightarrow> u8 list"
  io_log :: "(nat \<times> bool) list"

text \<open>
  Modelled from the spec: the block size \<open>BSIZE\<close>, which bio.c takes from fs.h; the
  payload of a buffer is a byte array of that size.
\<close>

definition BSIZE :: nat where
  "BSIZE = 1024"

text \<open>
  \<open>binit\<close>: \<open>bcache\<close> is a zero-initialised static object; \<open>binit\<close> clears every bucket
  head and initialises the locks.
\<close>

definition zero_buf :: buf where
  "zero_buf = \<lparr>valid = False, dev = 0, blockno = 0, lock = None, refcnt = 0,
                prev = None, next = None, data = replicate BSIZE 0\<rparr>"

definition binit :: "nat \<Rightarrow> (u32 \<Rightarrow> u32 \<Rightarrow> u8 list) \<Rightarrow> cache" where
  "binit nbuf dsk =
     \<lparr>bufs = replicate nbuf zero_buf, heads = replicate NBUCKET None,
      disk = dsk, io_log = []\<rparr>"

text \<open>Assignment through a buffer pointer: \<open>b->field = ...\<close>.\<close>

definition upd_buf :: "nat \<Rightarrow> (buf \<Rightarrow> buf) \<Rightarrow> cache \<Rightarrow> cache" where
  "upd_buf b f s = s\<lparr>bufs := (bufs s)[b := f (bufs s ! b)]\<rparr>"

subsection \<open>The collaborators: sleep locks and the disk driver\<close>

text \<open>
  How a call ends. \<open>bget\<close> and \<open>bread\<close> return a buffer (\<open>Returns\<close>), leave the caller
  asleep in \<open>acquiresleep\<close> on the lock of a buffer (\<open>Sleeps\<close>) or panic (\<open>Panics\<close>, with
  the message); \<open>bwrite\<close> and \<open>brelse\<close> return (\<open>Done\<close>) or panic (\<open>Fault\<close>). Each
  outcome carries the cache as it is at that moment.
\<close>

datatype result = Returns nat cache | Sleeps nat cache | Panics string cache

datatype status = Done cache | Fault string cache

text \<open>
  Modelled from the spec: the sleep lock, which bio.c takes from sleeplock.h, is the
  suspend-capable lock primitive of the specification. \<open>holdingsleep\<close> tells
  whether the calling process \<open>p\<close> holds the lock of buffer \<open>b\<close>; \<open>acquiresleep\<close> takes a
  free lock and suspends the caller on a held one; \<open>releasesleep\<close> frees the lock.
\<close>

definition holdingsleep :: "nat \<Rightarrow> nat \<Rightarrow> cache \<Rightarrow> bool" where
  "holdingsleep p b s = (lock (bufs s ! b) = Some p)"

definition acquiresleep :: "nat \<Rightarrow> nat \<Rightarrow> cache \<Rightarrow> result" where
  "acquiresleep p b s =
     (if lock (bufs s ! b) = None then Returns b (upd_buf b (\<lambda>x. x\<lparr>lock := Some p\<rparr>) s)
      else Sleeps b s)"

definition releasesleep :: "nat \<Rightarrow> cache \<Rightarrow> cache" where
  "releasesleep b s = upd_buf b (\<lambda>x. x\<lparr>lock := None\<rparr>) s"

text \<open>
  Modelled from the spec: \<open>virtio_disk_rw (b, write)\<close>, the disk driver that bio.c calls,
  is the disk-transfer collaborator \<open>transfer (buffer, isWrite)\<close>. It moves one block
  between the payload of \<open>b\<close> and the disk block named by \<open>b\<close>'s identity, and the call
  is recorded in \<open>io_log\<close>.
\<close>

definition virtio_disk_rw :: "nat \<Rightarrow> bool \<Rightarrow> cache \<Rightarrow> cache" where
  "virtio_disk_rw b write s =
     (let x = bufs s ! b;
          s1 = s\<lparr>io_log := io_log s @ [(b, write)]\<rparr>
      in if write then s1\<lparr>disk := (disk s)(dev x := (disk s (dev x))(blockno x := data x))\<rparr>
         else upd_buf b (\<lambda>y. y\<lparr>data := disk s (dev x) (blockno x)\<rparr>) s1)"

subsection \<open>bget\<close>

text \<open>
  The lookup loop \<open>for (b = bucket->head; b != 0; b = b->next)\<close>. It follows the \<open>next\<close>
  pointers until a match or the null pointer; on a cyclic list without a match it never
  ends, which is the value \<open>None\<close>. \<open>Some None\<close> is a miss. The requested identity
  \<open>(dev, blockno)\<close> is passed as a pair.
\<close>

partial_function (option) scan_bucket ::
  "buf list \<Rightarrow> u32 \<times> u32 \<Rightarrow> nat option \<Rightarrow> nat option option" where
  "scan_bucket bs idn p =
     (case p of
        None \<Rightarrow> Some None
      | Some b \<Rightarrow>
          if dev (bs ! b) = fst idn \<and> blockno (bs ! b) = snd idn then Some (Some b)
          else scan_bucket bs idn (next (bs ! b)))"

declare scan_bucket.simps [code]

text \<open>
  The recycling loop \<open>for (b = bcache.buf; b < bcache.buf+NBUF; b++)\<close>: the index of the
  first buffer of the pool with \<open>refcnt == 0\<close>.
\<close>

fun first_free :: "buf list \<Rightarrow> nat option" where
  "first_free [] = None"
| "first_free (x # xs) =
     (if refcnt x = 0 then Some 0 else map_option Suc (first_free xs))"

text \<open>
  The body of the recycling loop for the buffer \<open>b\<close> it stops at, in the order of the
  source: the four field assignments, then the push on the front of bucket \<open>k\<close>. The
  last assignment \<open>b->next->prev = b\<close> goes through the pointer just stored.
\<close>

definition recycle :: "nat \<Rightarrow> u32 \<Rightarrow> u32 \<Rightarrow> nat \<Rightarrow> cache \<Rightarrow> cache" where
  "recycle b d bno k s =
     (let s1 = upd_buf b (\<lambda>x. x\<lparr>refcnt := 1, dev := d, blockno := bno, valid := False\<rparr>) s
      in case heads s1 ! k of
           None \<Rightarrow>
             (let s2 = upd_buf b (\<lambda>x. x\<lparr>prev := None, next := None\<rparr>) s1
              in s2\<lparr>heads := (heads s2)[k := Some b]\<rparr>)
         | Some h \<Rightarrow>
             (let s2 = upd_buf b (\<lambda>x. x\<lparr>prev := None, next := Some h\<rparr>) s1;
                  s3 = s2\<lparr>heads := (heads s2)[k := Some b]\<rparr>
              in case next (bufs s3 ! b) of
                   None \<Rightarrow> s3
                 | Some n \<Rightarrow> upd_buf n (\<lambda>x. x\<lparr>prev := Some b\<rparr>) s3))"

definition bget :: "nat \<Rightarrow> u32 \<Rightarrow> u32 \<Rightarrow> cache \<Rightarrow> result option" where
  "bget p d bno s =
     (let k = unat bno mod NBUCKET
      in case scan_bucket (bufs s) (d, bno) (heads s ! k) of
           None \<Rightarrow> None
         | Some (Some b) \<Rightarrow>
             Some (acquiresleep p b (upd_buf b (\<lambda>x. x\<lparr>refcnt := refcnt x + 1\<rparr>) s))
         | Some None \<Rightarrow>
             (case first_free (bufs s) of
                None \<Rightarrow> Some (Panics ''bget: no buffers'' s)
              | Some b \<Rightarrow> Some (acquiresleep p b (recycle b d bno k s))))"

subsection \<open>bread, bwrite, brelse, bpin, bunpin\<close>

text \<open>The part of \<open>bread\<close> after \<open>bget\<close> has returned the locked buffer \<open>b\<close>.\<close>

definition bread_fill :: "nat \<Rightarrow> cache \<Rightarrow> cache" where
  "bread_fill b s =
     (if \<not> valid (bufs s ! b)
      then upd_buf b (\<lambda>x. x\<lparr>valid := True\<rparr>) (virtio_disk_rw b False s)
      else s)"

definition bread :: "nat \<Rightarrow> u32 \<Rightarrow> u32 \<Rightarrow> cache \<Rightarrow> result option" where
  "bread p d bno s =
     (case bget p d bno s of
        None \<Rightarrow> None
      | Some (Returns b s1) \<Rightarrow> Some (Returns b (bread_fill b s1))
      | Some (Sleeps b s1) \<Rightarrow> Some (Sleeps b s1)
      | Some (Panics m s1) \<Rightarrow> Some (Panics m s1))"

definition bwrite :: "nat \<Rightarrow> nat \<Rightarrow> cache \<Rightarrow> status" where
  "bwrite p b s =
     (if \<not> holdingsleep p b s then Fault ''bwrite'' s
      else Done (virtio_disk_rw b True s))"

text \<open>
  The branch of \<open>brelse\<close> taken when \<open>refcnt == 1\<close>: the three conditional pointer
  assignments in the order of the source, each reading the fields as the earlier ones
  left them, then \<open>refcnt = 0\<close>.
\<close>

definition unlink :: "nat \<Rightarrow> nat \<Rightarrow> cache \<Rightarrow> cache" where
  "unlink b k s =
     (let s1 = (case prev (bufs s ! b) of
                  None \<Rightarrow> s
                | Some q \<Rightarrow> upd_buf q (\<lambda>x. x\<lparr>next := next (bufs s ! b)\<rparr>) s);
          s2 = (case next (bufs s1 ! b) of
                  None \<Rightarrow> s1
                | Some n \<Rightarrow> upd_buf n (\<lambda>x. x\<lparr>prev := prev (bufs s1 ! b)\<rparr>) s1);
          s3 = (if heads s2 ! k = Some b
                then s2\<lparr>heads := (heads s2)[k := next (bufs s2 ! b)]\<rparr>
                else s2)
      in upd_buf b (\<lambda>x. x\<lparr>refcnt := 0\<rparr>) s3)"

definition brelse :: "nat \<Rightarrow> nat \<Rightarrow> cache \<Rightarrow> status" where
  "brelse p b s =
     (let k = unat (blockno (bufs s ! b)) mod NBUCKET
      in if \<not> holdingsleep p b s then Fault ''brelse'' s
         else
           (let s1 = releasesleep b s
            in if refcnt (bufs s1 ! b) \<noteq> 1
               then Done (upd_buf b (\<lambda>x. x\<lparr>refcnt := refcnt x - 1\<rparr>) s1)
               else Done (unlink b k s1)))"

definition bpin :: "nat \<Rightarrow> cache \<Rightarrow> cache" where
  "bpin b s = upd_buf b (\<lambda>x. x\<lparr>refcnt := refcnt x + 1\<rparr>) s"

definition bunpin :: "nat \<Rightarrow> cache \<Rightarrow> cache" where
  "bunpin b s = upd_buf b (\<lambda>x. x\<lparr>refcnt := refcnt x - 1\<rparr>) s"

subsection \<open>Bucket lists\<close>

text \<open>
  \<open>is_list bs p xs\<close>: following \<open>next\<close> from the pointer \<open>p\<close> visits exactly the buffers
  \<open>xs\<close>, all of the pool, and then reaches the null pointer. \<open>prevs_ok bs q xs\<close>: the
  \<open>prev\<close> pointers along \<open>xs\<close> point back, the first one to \<open>q\<close>. The buffers
  attached to bucket \<open>k\<close> of a cache \<open>s\<close> are the list \<open>xs\<close> with
  \<open>is_list (bufs s) (heads s ! k) xs\<close>, when there is one.
\<close>

fun is_list :: "buf list \<Rightarrow> nat option \<Rightarrow> nat list \<Rightarrow> bool" where
  "is_list bs p [] = (p = None)"
| "is_list bs p (x # xs) = (p = Some x \<and> x < length bs \<and> is_list bs (next (bs ! x)) xs)"


subsection \<open>Traces of operations\<close>

text \<open>
  The operations that contexts apply to the cache, each with the process id of the
  caller where the code asks for it. \<open>Resume p b rd\<close> is the continuation of a caller that
  went to sleep in \<open>acquiresleep\<close> on buffer \<open>b\<close>: it tries the lock again and, when the
  sleeper was inside \<open>bread\<close> (\<open>rd\<close>), goes on with the rest of \<open>bread\<close>.
\<close>

datatype op =
    Get nat u32 u32
  | Read nat u32 u32
  | Resume nat nat bool
  | Write nat nat
  | Release nat nat
  | Pin nat
  | Unpin nat

fun res_cache :: "result option \<Rightarrow> cache option" where
  "res_cache (Some (Returns b s)) = Some s"
| "res_cache (Some (Sleeps b s)) = Some s"
| "res_cache (Some (Panics m s)) = None"
| "res_cache None = None"

fun res_buf :: "result option \<Rightarrow> nat option" where
  "res_buf (Some (Returns b s)) = Some b"
| "res_buf (Some (Sleeps b s)) = Some b"
| "res_buf (Some (Panics m s)) = None"
| "res_buf None = None"

text \<open>One operation; \<open>None\<close> when it panics or never comes back.\<close>

fun step :: "op \<Rightarrow> cache \<Rightarrow> cache option" where
  "step (Get p d bno) s = res_cache (bget p d bno s)"
| "step (Read p d bno) s = res_cache (bread p d bno s)"
| "step (Resume p b rd) s =
     (case acquiresleep p b s of
        Returns b' s' \<Rightarrow> Some (if rd then bread_fill b' s' else s')
      | Sleeps b' s' \<Rightarrow> Some s'
      | Panics m s' \<Rightarrow> None)"
| "step (Write p b) s = (case bwrite p b s of Done s' \<Rightarrow> Some s' | Fault m s' \<Rightarrow> None)"
| "step (Release p b) s = (case brelse p b s of Done s' \<Rightarrow> Some s' | Fault m s' \<Rightarrow> None)"
| "step (Pin b) s = Some (bpin b s)"
| "step (Unpin b) s = Some (bunpin b s)"

fun run :: "cache \<Rightarrow> op list \<Rightarrow> cache option" where
  "run s [] = Some s"
| "run s (x # xs) = (case step x s of None \<Rightarrow> None | Some s' \<Rightarrow> run s' xs)"








subsection \<open>Example states\<close>

text \<open>
  A cache with a pool of two buffers (\<open>NBUF = 2\<close>) over a disk whose blocks all hold
  ones, and the states that some short traces lead to from it. Each state is written
  out; the lemmas \<open>reach_*\<close> below show the trace that produces it.
\<close>

definition disk0 :: "u32 \<Rightarrow> u32 \<Rightarrow> u8 list" where
  "disk0 d b = replicate BSIZE 1"

definition boot :: cache where
  "boot = binit 2 disk0"

text \<open>After \<open>bread (1, 5)\<close> by process 1: buffer 0 holds block 5, locked by process 1.\<close>

definition ex_read :: cache where
  "ex_read =
     \<lparr>bufs = [\<lparr>valid = True, dev = 1, blockno = 5, lock = Some 1, refcnt = 1,
               prev = None, next = None, data = disk0 1 5\<rparr>, zero_buf],
      heads = (replicate NBUCKET None)[5 := Some 0], disk = disk0, io_log = [(0, False)]\<rparr>"


text \<open>
  After \<open>bread (1, 5)\<close> by process 1 and \<open>bget (1, 18)\<close> by process 2: both buffers are
  held, both in bucket 5, buffer 1 in front.
\<close>

definition ex_two :: cache where
  "ex_two =
     \<lparr>bufs = [\<lparr>valid = True, dev = 1, blockno = 5, lock = Some 1, refcnt = 1,
               prev = Some 1, next = None, data = disk0 1 5\<rparr>,
              \<lparr>valid = False, dev = 1, blockno = 18, lock = Some 2, refcnt = 1,
               prev = None, next = Some 0, data = replicate BSIZE 0\<rparr>],
      heads = (replicate NBUCKET None)[5 := Some 1], disk = disk0, io_log = [(0, False)]\<rparr>"

text \<open>The same with buffer 0 pinned once, and then released by process 1.\<close>

definition ex_pinned :: cache where
  "ex_pinned =
     \<lparr>bufs = [\<lparr>valid = True, dev = 1, blockno = 5, lock = Some 1, refcnt = 2,
               prev = Some 1, next = None, data = disk0 1 5\<rparr>,
              \<lparr>valid = False, dev = 1, blockno = 18, lock = Some 2, refcnt = 1,
               prev = None, next = Some 0, data = replicate BSIZE 0\<rparr>],
      heads = (replicate NBUCKET None)[5 := Some 1], disk = disk0, io_log = [(0, False)]\<rparr>"

definition ex_pinned_released :: cache where
  "ex_pinned_released =
     \<lparr>bufs = [\<lparr>valid = True, dev = 1, blockno = 5, lock = None, refcnt = 1,
               prev = Some 1, next = None, data = disk0 1 5\<rparr>,
              \<lparr>valid = False, dev = 1, blockno = 18, lock = Some 2, refcnt = 1,
               prev = None, next = Some 0, data = replicate BSIZE 0\<rparr>],
      heads = (replicate NBUCKET None)[5 := Some 1], disk = disk0, io_log = [(0, False)]\<rparr>"



text \<open>
  After \<open>bget (1, 5)\<close> by process 1, \<open>bpin\<close>, \<open>brelse\<close> and \<open>bunpin\<close> of buffer 0; and
  after one more \<open>bget (1, 18)\<close>, by process 2.
\<close>

definition ex_unpinned :: cache where
  "ex_unpinned =
     \<lparr>bufs = [\<lparr>valid = False, dev = 1, blockno = 5, lock = None, refcnt = 0,
               prev = None, next = None, data = replicate BSIZE 0\<rparr>, zero_buf],
      heads = (replicate NBUCKET None)[5 := Some 0], disk = disk0, io_log = []\<rparr>"

definition ex_looped :: cache where
  "ex_looped =
     \<lparr>bufs = [\<lparr>valid = False, dev = 1, blockno = 18, lock = Some 2, refcnt = 1,
               prev = Some 0, next = Some 0, data = replicate BSIZE 0\<rparr>, zero_buf],
      heads = (replicate NBUCKET None)[5 := Some 0], disk = disk0, io_log = []\<rparr>"


section \<open>Auxiliary facts\<close>

subsection \<open>Assignments through a buffer pointer\<close>

lemma length_upd_buf: "length (bufs (upd_buf b f s)) = length (bufs s)"
  by (simp add: upd_buf_def)

lemma nth_upd_buf:
  "bufs (upd_buf b f s) ! j =
     (if j = b \<and> b < length (bufs s) then f (bufs s ! b) else bufs s ! j)"
  by (auto simp: upd_buf_def nth_list_update list_update_beyond)

lemma upd_buf_other:
  "heads (upd_buf b f s) = heads s" "disk (upd_buf b f s) = disk s"
  "io_log (upd_buf b f s) = io_log s"
  by (simp_all add: upd_buf_def)

subsection \<open>The lookup loop and the recycling loop\<close>

lemma scan_None: "scan_bucket bs idn None = Some None"
  by (subst scan_bucket.simps) simp

lemma scan_Some:
  "scan_bucket bs idn (Some b) =
     (if dev (bs ! b) = fst idn \<and> blockno (bs ! b) = snd idn then Some (Some b)
      else scan_bucket bs idn (next (bs ! b)))"
  by (subst scan_bucket.simps) simp







lemma first_free_Some:
  "first_free bs = Some b \<longleftrightarrow>
     b < length bs \<and> refcnt (bs ! b) = 0 \<and> (\<forall>j<b. refcnt (bs ! j) \<noteq> 0)"
proof (induction bs arbitrary: b)
  case Nil
  then show ?case by simp
next
  case (Cons x xs)
  show ?case
  proof (cases "refcnt x = 0")
    case True
    then show ?thesis by (cases b) auto
  next
    case False
    then show ?thesis
      by (cases b) (auto simp: Cons.IH less_Suc_eq_0_disj)
  qed
qed


subsection \<open>Lists in the pool\<close>









subsection \<open>Effect of bget\<close>










subsection \<open>Effect of bread\<close>



subsection \<open>Effect of brelse\<close>











subsection \<open>Reference counts along a trace\<close>









subsection \<open>The valid flag and the identity along a trace\<close>










subsection \<open>Filling the pool\<close>






subsection \<open>A list that runs into itself\<close>

lemma scan_self_loop:
  assumes "next (bs ! b) = Some b" and "\<not> (dev (bs ! b) = fst idn \<and> blockno (bs ! b) = snd idn)"
  shows "scan_bucket bs idn (Some b) = None"
proof (rule ccontr)
  assume "scan_bucket bs idn (Some b) \<noteq> None"
  then obtain r where r: "scan_bucket bs idn (Some b) = Some r" by auto
  have "\<not> (bs = bs \<and> idn = idn \<and> Some b = Some b)"
  proof (rule scan_bucket.raw_induct
      [where P = "\<lambda>bs' idn' p r'. \<not> (bs' = bs \<and> idn' = idn \<and> p = Some b)", OF _ r])
    fix f :: "buf list \<Rightarrow> u32 \<times> u32 \<Rightarrow> nat option \<Rightarrow> nat option option"
    fix bs' idn' p y
    assume IH: "\<And>bs' idn' p y. f bs' idn' p = Some y \<Longrightarrow> \<not> (bs' = bs \<and> idn' = idn \<and> p = Some b)"
    assume st: "(case p of None \<Rightarrow> Some None
          | Some c \<Rightarrow> if dev (bs' ! c) = fst idn' \<and> blockno (bs' ! c) = snd idn'
                      then Some (Some c) else f bs' idn' (next (bs' ! c))) = Some y"
    show "\<not> (bs' = bs \<and> idn' = idn \<and> p = Some b)"
    proof
      assume e: "bs' = bs \<and> idn' = idn \<and> p = Some b"
      with st assms have "f bs idn (Some b) = Some y" by simp
      with IH show False by blast
    qed
  qed
  then show False by simp
qed

subsection \<open>Evaluation of the example states\<close>


lemma replicate_numeral: "replicate (numeral n) x = x # replicate (pred_numeral n) x"
  by (simp add: numeral_eq_Suc)

lemmas ev = bget_def bread_def bwrite_def brelse_def bpin_def bunpin_def bread_fill_def
  recycle_def unlink_def upd_buf_def acquiresleep_def releasesleep_def holdingsleep_def
  virtio_disk_rw_def NBUCKET_def scan_None scan_Some Let_def zero_buf_def

lemma boot_eq: "boot = \<lparr>bufs = [zero_buf, zero_buf], heads = replicate NBUCKET None,
      disk = disk0, io_log = []\<rparr>"
  by (simp add: boot_def binit_def replicate_numeral)




lemma reach_pinned: "run ex_two [Pin 0] = Some ex_pinned"
  by (simp add: ex_two_def ex_pinned_def ev)

lemma reach_pinned_released: "run ex_pinned [Release 1 0] = Some ex_pinned_released"
  by (simp add: ex_pinned_released_def ex_pinned_def ev)



lemma reach_unpinned: "run boot [Get 1 1 5, Pin 0, Release 1 0, Unpin 0] = Some ex_unpinned"
  by (simp add: boot_eq ex_unpinned_def ev)

lemma reach_looped: "run ex_unpinned [Get 2 1 18] = Some ex_looped"
  by (simp add: ex_unpinned_def ex_looped_def ev)





section \<open>The claims\<close>

subsection \<open>C1: a buffer with refcnt 0 is detached\<close>

text \<open>
  Claim C1. In every state reachable from \<open>binit\<close> by the public operations, a buffer
  with \<open>refcnt = 0\<close> is in no bucket's list; in particular an unpin that brings \<open>refcnt\<close>
  to 0 leaves the buffer detached.

  The code does not keep this. \<open>brelse\<close> unlinks a buffer when its count goes from 1
  to 0, but \<open>bunpin\<close> only decrements. With a pool of two buffers: process 1 gets block
  \<open>(1, 5)\<close> in buffer 0, pins it, releases it (count 1, still attached) and unpins it.
  Buffer 0 now has \<open>refcnt = 0\<close> and is still the list of bucket 5. The recycling loop of
  \<open>bget\<close> takes buffers with \<open>refcnt = 0\<close> to be detached: the next miss in bucket 5,
  \<open>bget (1, 18)\<close>, recycles buffer 0 and pushes it in front of itself, so that
  \<open>b->next = b\<close>, and the lookup of a further block of bucket 5, \<open>bget (1, 31)\<close>, never
  ends.
\<close>

theorem unpin_to_zero_leaves_attached:
  "run boot [Get 1 1 5, Pin 0, Release 1 0, Unpin 0] = Some ex_unpinned \<and>
   refcnt (bufs ex_unpinned ! 0) = 0 \<and> heads ex_unpinned ! 5 = Some 0 \<and>
   is_list (bufs ex_unpinned) (heads ex_unpinned ! 5) [0] \<and>
   run ex_unpinned [Get 2 1 18] = Some ex_looped \<and>
   heads ex_looped ! 5 = Some 0 \<and> next (bufs ex_looped ! 0) = Some 0 \<and>
   bget 3 1 31 ex_looped = None"
proof -
  have 1: "refcnt (bufs ex_unpinned ! 0) = 0" "heads ex_unpinned ! 5 = Some 0"
    "is_list (bufs ex_unpinned) (heads ex_unpinned ! 5) [0]"
    by (simp_all add: ex_unpinned_def NBUCKET_def)
  have 2: "heads ex_looped ! 5 = Some 0" "next (bufs ex_looped ! 0) = Some 0"
    by (simp_all add: ex_looped_def NBUCKET_def)
  have "scan_bucket (bufs ex_looped) (1, 31) (Some 0) = None"
    by (rule scan_self_loop) (simp_all add: ex_looped_def)
  then have 3: "bget 3 1 31 ex_looped = None"
    using 2 by (simp add: bget_def NBUCKET_def)
  show ?thesis using reach_unpinned reach_looped 1 2 3 by simp
qed

subsection \<open>C2: a hit shares the cached buffer\<close>



subsection \<open>C3: a miss recycles the first free buffer\<close>



subsection \<open>C4: no free buffer on a miss is fatal\<close>



subsection \<open>C5: bread transfers only into an invalid buffer\<close>




subsection \<open>C6: brelse decrements, and detaches on zero\<close>



subsection \<open>C7: bwrite and brelse check the sleep lock first\<close>

text \<open>
  Claim C7. \<open>bwrite\<close> and \<open>brelse\<close>, called by a process \<open>p\<close> that does not hold the sleep
  lock of the buffer, panic, and the cache at the panic is the cache of the call: no
  disk transfer has been made and no count, \<open>valid\<close> flag or list pointer has changed.
\<close>

theorem lock_contract_fail_fast:
  "lock (bufs s ! b) \<noteq> Some p \<Longrightarrow>
   bwrite p b s = Fault ''bwrite'' s \<and> brelse p b s = Fault ''brelse'' s"
  by (simp add: bwrite_def brelse_def holdingsleep_def)

text \<open>
  Witness: in \<open>ex_read\<close> process 1 holds the lock of buffer 0, and nobody that of buffer
  1. Process 2 calls \<open>bwrite\<close> and \<open>brelse\<close> on buffer 0.
\<close>

theorem lock_contract_fail_fast_witness:
  "lock (bufs ex_read ! 0) = Some 1 \<and>
   bwrite 2 0 ex_read = Fault ''bwrite'' ex_read \<and>
   brelse 2 0 ex_read = Fault ''brelse'' ex_read"
proof -
  have h: "lock (bufs ex_read ! 0) = Some 1" by (simp add: ex_read_def)
  then have "lock (bufs ex_read ! 0) \<noteq> Some 2" by simp
  from lock_contract_fail_fast [OF this] h show ?thesis by simp
qed

subsection \<open>C8: bwrite always writes\<close>

text \<open>
  Claim C8. \<open>bwrite\<close>, called by the holder of the sleep lock, calls the disk driver in
  write mode whatever the \<open>valid\<close> flag is: the transfer log grows by one write of the
  buffer, and the disk block of the buffer's identity receives its payload. No buffer
  changes (so neither \<open>valid\<close> nor \<open>refcnt\<close>, nor the identity or the list pointers), and
  no bucket head.
\<close>

theorem bwrite_unconditional:
  assumes "lock (bufs s ! b) = Some p"
  shows "\<exists>s'. bwrite p b s = Done s' \<and> io_log s' = io_log s @ [(b, True)] \<and>
           bufs s' = bufs s \<and> heads s' = heads s \<and>
           disk s' (dev (bufs s ! b)) (blockno (bufs s ! b)) = data (bufs s ! b)"
  using assms by (simp add: bwrite_def holdingsleep_def virtio_disk_rw_def Let_def)

text \<open>
  Witness: in \<open>ex_read\<close> buffer 0 is valid and locked by process 1, whose \<open>bwrite\<close> logs a
  write transfer.
\<close>

theorem bwrite_unconditional_witness:
  "lock (bufs ex_read ! 0) = Some 1 \<and> valid (bufs ex_read ! 0) \<and>
   bwrite 1 0 ex_read = Done (virtio_disk_rw 0 True ex_read) \<and>
   io_log (virtio_disk_rw 0 True ex_read) = [(0, False), (0, True)] \<and>
   bufs (virtio_disk_rw 0 True ex_read) = bufs ex_read \<and>
   heads (virtio_disk_rw 0 True ex_read) = heads ex_read"
proof -
  have h: "lock (bufs ex_read ! 0) = Some 1" "valid (bufs ex_read ! 0)"
    "io_log ex_read = [(0, False)]"
    by (simp_all add: ex_read_def)
  from bwrite_unconditional [OF h(1)] obtain s' where
    r: "bwrite 1 0 ex_read = Done s'" and f: "io_log s' = io_log ex_read @ [(0, True)]"
      "bufs s' = bufs ex_read" "heads s' = heads ex_read"
    by blast
  have "bwrite 1 0 ex_read = Done (virtio_disk_rw 0 True ex_read)"
    using h(1) by (simp add: bwrite_def holdingsleep_def)
  with r have "s' = virtio_disk_rw 0 True ex_read" by simp
  with r f h show ?thesis by simp
qed

subsection \<open>C9: a release that keeps the buffer cached moves it to the head\<close>

text \<open>
  Claim C9. On every release that leaves the buffer cached (\<open>refcnt\<close> still at least 1
  afterwards), the released buffer is moved to the head of its bucket's list.

  The comment above \<open>brelse\<close> says the same: "Release a locked buffer. Move to the head
  of the most-recently-used list." The body does not do it: the branch for
  \<open>refcnt != 1\<close> only decrements the count and relinks nothing. In \<open>ex_pinned\<close> bucket 5
  is \<open>[1, 0]\<close> and buffer 0, of that bucket, is locked by process 1 with count 2. After
  \<open>brelse\<close> of buffer 0 by process 1 the count is 1, so the buffer stays cached, but the
  head of bucket 5 is still buffer 1, not buffer 0, and the list is still \<open>[1, 0]\<close>.
\<close>

theorem release_does_not_move_to_head:
  "is_list (bufs ex_pinned) (heads ex_pinned ! 5) [1, 0] \<and>
   unat (blockno (bufs ex_pinned ! 0)) mod NBUCKET = 5 \<and>
   brelse 1 0 ex_pinned = Done ex_pinned_released \<and>
   refcnt (bufs ex_pinned_released ! 0) = 1 \<and>
   heads ex_pinned_released ! 5 = Some 1 \<and> heads ex_pinned_released ! 5 \<noteq> Some 0 \<and>
   is_list (bufs ex_pinned_released) (heads ex_pinned_released ! 5) [1, 0]"
proof -
  have "brelse 1 0 ex_pinned = Done ex_pinned_released"
    using reach_pinned_released by (simp split: status.splits)
  then show ?thesis
    by (simp add: ex_pinned_def ex_pinned_released_def NBUCKET_def)
qed

subsection \<open>C10: bunpin on a count of 0 wraps around\<close>

text \<open>
  Claim C10. \<open>bunpin\<close> decrements \<open>refcnt\<close> with no check and no panic; on a buffer whose
  count is 0 the unsigned counter wraps to \<open>2^32 - 1\<close> (the branch of \<open>brelse\<close> that does
  not detach decrements a count of 0 in the same way), which silently makes the buffer
  never again selectable for recycling.

  The wrap is as stated, but not the "never again": a counter at \<open>2^32 - 1\<close> is one
  increment away from 0. On the fresh cache \<open>boot\<close>, \<open>bunpin\<close> of buffer 0 wraps its
  count, and the recycling loop passes it over (it takes buffer 1); a \<open>bpin\<close> of buffer
  0 then brings the count back to 0, and the next \<open>bget\<close> recycles buffer 0.
\<close>

theorem unpin_then_pin_is_free_again:
  "refcnt (bufs boot ! 0) = 0 \<and>
   refcnt (bufs (bunpin 0 boot) ! 0) = 0xFFFFFFFF \<and>
   first_free (bufs (bunpin 0 boot)) = Some 1 \<and>
   refcnt (bufs (bpin 0 (bunpin 0 boot)) ! 0) = 0 \<and>
   first_free (bufs (bpin 0 (bunpin 0 boot))) = Some 0 \<and>
   res_buf (bget 1 1 5 (bpin 0 (bunpin 0 boot))) = Some 0"
  by (simp add: boot_eq ev)

text \<open>
  Claim C10, amended. \<open>bunpin\<close> decrements \<open>refcnt\<close> by one whatever its value, without
  a panic (it is a total function of the cache) and without touching the lists. On a
  count of 0 the result is \<open>2^32 - 1\<close>; the recycling loop then does not select the
  buffer, for as long as the count stays other than 0, and a following \<open>bpin\<close> brings
  the count back to 0. \<open>brelse\<close> by the holder of the lock of a buffer with count 0
  takes the decrementing branch and wraps the count in the same way.
\<close>

theorem bunpin_wraps:
  assumes "b < length (bufs s)"
  shows "refcnt (bufs (bunpin b s) ! b) = refcnt (bufs s ! b) - 1 \<and>
         heads (bunpin b s) = heads s \<and> io_log (bunpin b s) = io_log s \<and>
         (\<forall>j. next (bufs (bunpin b s) ! j) = next (bufs s ! j) \<and>
              prev (bufs (bunpin b s) ! j) = prev (bufs s ! j) \<and>
              (j \<noteq> b \<longrightarrow> bufs (bunpin b s) ! j = bufs s ! j)) \<and>
         (refcnt (bufs s ! b) = 0 \<longrightarrow>
            unat (refcnt (bufs (bunpin b s) ! b)) = 2 ^ 32 - 1 \<and>
            first_free (bufs (bunpin b s)) \<noteq> Some b \<and>
            refcnt (bufs (bpin b (bunpin b s)) ! b) = 0) \<and>
         (refcnt (bufs s ! b) = 0 \<longrightarrow> lock (bufs s ! b) = Some p \<longrightarrow>
            (\<exists>s'. brelse p b s = Done s' \<and> unat (refcnt (bufs s' ! b)) = 2 ^ 32 - 1 \<and>
                  heads s' = heads s \<and> first_free (bufs s') \<noteq> Some b))"
proof -
  have m: "unat ((0::u32) - 1) = 2 ^ 32 - 1"
    by (simp add: unsigned_minus_1_eq_mask mask_eq_exp_minus_1)
  have nz: "(0::u32) - 1 \<noteq> 0" by simp
  have 1: "refcnt (bufs (bunpin b s) ! b) = refcnt (bufs s ! b) - 1"
    "heads (bunpin b s) = heads s" "io_log (bunpin b s) = io_log s"
    using assms by (simp_all add: bunpin_def nth_upd_buf upd_buf_other)
  have 2: "\<forall>j. next (bufs (bunpin b s) ! j) = next (bufs s ! j) \<and>
              prev (bufs (bunpin b s) ! j) = prev (bufs s ! j) \<and>
              (j \<noteq> b \<longrightarrow> bufs (bunpin b s) ! j = bufs s ! j)"
    by (simp add: bunpin_def nth_upd_buf)
  have 3: "unat (refcnt (bufs (bunpin b s) ! b)) = 2 ^ 32 - 1 \<and>
            first_free (bufs (bunpin b s)) \<noteq> Some b \<and>
            refcnt (bufs (bpin b (bunpin b s)) ! b) = 0"
    if z: "refcnt (bufs s ! b) = 0"
  proof -
    have a: "refcnt (bufs (bunpin b s) ! b) = 0 - 1" using 1 z by simp
    then have "refcnt (bufs (bunpin b s) ! b) \<noteq> 0" using nz by simp
    then have "first_free (bufs (bunpin b s)) \<noteq> Some b" by (simp add: first_free_Some)
    moreover have "refcnt (bufs (bpin b (bunpin b s)) ! b) = 0"
      using assms z by (simp add: bpin_def bunpin_def nth_upd_buf length_upd_buf)
    ultimately show ?thesis using a m by simp
  qed
  have 4: "\<exists>s'. brelse p b s = Done s' \<and> unat (refcnt (bufs s' ! b)) = 2 ^ 32 - 1 \<and>
                  heads s' = heads s \<and> first_free (bufs s') \<noteq> Some b"
    if z: "refcnt (bufs s ! b) = 0" and lk: "lock (bufs s ! b) = Some p"
  proof -
    define s' where
      "s' = upd_buf b (\<lambda>x. x\<lparr>refcnt := refcnt x - 1\<rparr>) (releasesleep b s)"
    have r: "brelse p b s = Done s'"
      using assms z lk
      by (simp add: brelse_def holdingsleep_def Let_def s'_def releasesleep_def nth_upd_buf)
    have a: "refcnt (bufs s' ! b) = 0 - 1"
      using assms z by (simp add: s'_def releasesleep_def nth_upd_buf length_upd_buf)
    then have "refcnt (bufs s' ! b) \<noteq> 0" using nz by simp
    then have "first_free (bufs s') \<noteq> Some b" by (simp add: first_free_Some)
    moreover have "heads s' = heads s"
      by (simp add: s'_def releasesleep_def upd_buf_other)
    ultimately show ?thesis using r a m by (intro exI [of _ s']) simp
  qed
  show ?thesis using 1 2 3 4 by blast
qed

text \<open>
  Witness: \<open>bunpin\<close> of the free buffer 0 of \<open>boot\<close>; and \<open>brelse\<close> by process 1 of buffer 0
  in \<open>bunpin 0 ex_read\<close>, where that buffer is locked by process 1 with count 0.
\<close>

theorem bunpin_wraps_witness:
  "0 < length (bufs boot) \<and> refcnt (bufs boot ! 0) = 0 \<and>
   unat (refcnt (bufs (bunpin 0 boot) ! 0)) = 4294967295 \<and>
   first_free (bufs (bunpin 0 boot)) \<noteq> Some 0 \<and>
   refcnt (bufs (bpin 0 (bunpin 0 boot)) ! 0) = 0 \<and>
   0 < length (bufs (bunpin 0 ex_read)) \<and> refcnt (bufs (bunpin 0 ex_read) ! 0) = 0 \<and>
   lock (bufs (bunpin 0 ex_read) ! 0) = Some 1 \<and>
   brelse 1 0 (bunpin 0 ex_read) =
     Done (upd_buf 0 (\<lambda>x. x\<lparr>refcnt := refcnt x - 1\<rparr>) (releasesleep 0 (bunpin 0 ex_read))) \<and>
   unat (refcnt (bufs (upd_buf 0 (\<lambda>x. x\<lparr>refcnt := refcnt x - 1\<rparr>)
     (releasesleep 0 (bunpin 0 ex_read))) ! 0)) = 4294967295"
proof -
  let ?t = "bunpin 0 ex_read"
  let ?u = "upd_buf 0 (\<lambda>x. x\<lparr>refcnt := refcnt x - 1\<rparr>) (releasesleep 0 ?t)"
  have h: "0 < length (bufs boot)" "refcnt (bufs boot ! 0) = 0"
    by (simp_all add: boot_eq zero_buf_def)
  have g: "0 < length (bufs ?t)" "refcnt (bufs ?t ! 0) = 0" "lock (bufs ?t ! 0) = Some 1"
    by (simp_all add: ex_read_def bunpin_def upd_buf_def)
  from bunpin_wraps [OF h(1), of 0] h(2) have 1:
    "unat (refcnt (bufs (bunpin 0 boot) ! 0)) = 2 ^ 32 - 1"
    "first_free (bufs (bunpin 0 boot)) \<noteq> Some 0"
    "refcnt (bufs (bpin 0 (bunpin 0 boot)) ! 0) = 0"
    by blast+
  from bunpin_wraps [OF g(1), of 1] g(2,3) obtain s' where
    r: "brelse 1 0 ?t = Done s'" and f: "unat (refcnt (bufs s' ! 0)) = 2 ^ 32 - 1"
    by blast
  have "brelse 1 0 ?t = Done ?u"
    using g by (simp add: brelse_def holdingsleep_def Let_def releasesleep_def nth_upd_buf)
  with r have "s' = ?u" by simp
  with r f have 2: "brelse 1 0 ?t = Done ?u" "unat (refcnt (bufs ?u ! 0)) = 2 ^ 32 - 1"
    by simp_all
  show ?thesis using h g 1 2 by simp
qed

end
